theory Spec2Isabelle
  imports Complex_Main "HOL-Library.Word"
begin

section \<open>Spike detector (MonitorGUI spike helpers)\<close>

text \<open>
  Clock readings (\<^verbatim>\<open>time.time()\<close>) are passed in explicitly as real numbers; every call of
  the source that reads the clock takes its reading as an argument.  The three settings
  \<^verbatim>\<open>SPIKE_WINDOW_SEC\<close>, \<^verbatim>\<open>SPIKE_THRESHOLD\<close>, \<^verbatim>\<open>ALERT_COOLDOWN_SEC\<close> are module
  globals of the source, set once from the command line.
\<close>

record spike_config =
  SPIKE_WINDOW_SEC :: real
  SPIKE_THRESHOLD :: int
  ALERT_COOLDOWN_SEC :: real

record spike_state =
  mod_deque :: "(real \<times> string) list"
  last_alert_ts :: real

definition init_spike :: spike_state where
  "init_spike = \<lparr>mod_deque = [], last_alert_ts = 0\<rparr>"

text \<open>\<^verbatim>\<open>while self.mod_deque and self.mod_deque[0][0] < cutoff: self.mod_deque.popleft()\<close>\<close>

fun popleft_while :: "real \<Rightarrow> (real \<times> string) list \<Rightarrow> (real \<times> string) list" where
  "popleft_while cutoff [] = []"
| "popleft_while cutoff (e # es) =
     (if fst e < cutoff then popleft_while cutoff es else e # es)"

definition record_mod_event :: "spike_config \<Rightarrow> real \<Rightarrow> string \<Rightarrow> spike_state \<Rightarrow> spike_state" where
  "record_mod_event cfg t abs_path s =
     s\<lparr>mod_deque := popleft_while (t - SPIKE_WINDOW_SEC cfg) (mod_deque s @ [(t, abs_path)])\<rparr>"

definition count_mods :: "spike_config \<Rightarrow> real \<Rightarrow> spike_state \<Rightarrow> int" where
  "count_mods cfg now s =
     int (length (filter (\<lambda>e. fst e \<ge> now - SPIKE_WINDOW_SEC cfg) (mod_deque s)))"

definition collect_recent_paths :: "spike_config \<Rightarrow> real \<Rightarrow> spike_state \<Rightarrow> string list" where
  "collect_recent_paths cfg now s =
     map snd (filter (\<lambda>e. fst e \<ge> now - SPIKE_WINDOW_SEC cfg) (mod_deque s))"

text \<open>\<^verbatim>\<open>list(dict.fromkeys(xs))\<close>: keys in order of first insertion.\<close>

definition fromkeys :: "string list \<Rightarrow> string list" where
  "fromkeys xs = foldl (\<lambda>acc x. if x \<in> set acc then acc else acc @ [x]) [] xs"

text \<open>
  \<^verbatim>\<open>_maybe_trigger_spike\<close> reads the clock three times: inside \<^verbatim>\<open>_count_mods\<close> (\<open>t_count\<close>),
  for \<^verbatim>\<open>now_ts\<close>, and inside \<^verbatim>\<open>_collect_recent_paths\<close> (\<open>t_collect\<close>).  The result is the
  payload handed to \<^verbatim>\<open>root.after(100, ...)\<close>, or \<open>None\<close> when nothing is scheduled.
\<close>

definition maybe_trigger_spike ::
  "spike_config \<Rightarrow> real \<Rightarrow> real \<Rightarrow> real \<Rightarrow> spike_state \<Rightarrow> string list option \<times> spike_state" where
  "maybe_trigger_spike cfg t_count now_ts t_collect s =
     (let count = count_mods cfg t_count s in
      if count \<ge> SPIKE_THRESHOLD cfg \<and> (now_ts - last_alert_ts s) > ALERT_COOLDOWN_SEC cfg
      then (let s' = s\<lparr>last_alert_ts := now_ts\<rparr> in
            (Some (fromkeys (collect_recent_paths cfg t_collect s')), s'))
      else (None, s))"

text \<open>Recording a whole sequence of (clock reading, path) pairs, oldest first.\<close>

definition record_all :: "spike_config \<Rightarrow> (real \<times> string) list \<Rightarrow> spike_state \<Rightarrow> spike_state" where
  "record_all cfg evs s = foldl (\<lambda>s e. record_mod_event cfg (fst e) (snd e) s) s evs"

text \<open>A run of the detector: recordings and trigger checks in the order the polling loop
  issues them; the result lists the alerts scheduled, each with its \<^verbatim>\<open>now_ts\<close>.\<close>

datatype spike_step = Record real string | MaybeTrigger real real real

fun spike_run ::
  "spike_config \<Rightarrow> spike_step list \<Rightarrow> spike_state \<Rightarrow> (real \<times> string list) list \<times> spike_state" where
  "spike_run cfg [] s = ([], s)"
| "spike_run cfg (Record t p # steps) s = spike_run cfg steps (record_mod_event cfg t p s)"
| "spike_run cfg (MaybeTrigger tc now tcl # steps) s =
     (case maybe_trigger_spike cfg tc now tcl s of
        (None, s') \<Rightarrow> spike_run cfg steps s'
      | (Some payload, s') \<Rightarrow>
          (case spike_run cfg steps s' of (alerts, s'') \<Rightarrow> ((now, payload) # alerts, s'')))"

definition example_spike_config :: spike_config where
  "example_spike_config = \<lparr>SPIKE_WINDOW_SEC = 5, SPIKE_THRESHOLD = 8, ALERT_COOLDOWN_SEC = 60\<rparr>"

text \<open>Concrete settings and runs used to evaluate the detector.\<close>

definition long_cooldown_config :: spike_config where
  "long_cooldown_config =
     \<lparr>SPIKE_WINDOW_SEC = 5, SPIKE_THRESHOLD = 1, ALERT_COOLDOWN_SEC = 2000000000\<rparr>"

definition example_burst :: "real \<Rightarrow> spike_step list" where
  "example_burst t0 =
     [Record t0 ''/t/f1'', Record t0 ''/t/f2'', Record (t0 + 1) ''/t/f3'',
      Record (t0 + 1) ''/t/f4'', Record (t0 + 2) ''/t/f5'', Record (t0 + 3) ''/t/f6'',
      Record (t0 + 3) ''/t/f1'', Record (t0 + 4) ''/t/f8'',
      MaybeTrigger (t0 + 4) (t0 + 4) (t0 + 4)]"

definition example_steps :: "spike_step list" where
  "example_steps = example_burst 1000 @ example_burst 1010 @ example_burst 1061"

section \<open>Files on disk\<close>

text \<open>
  The programs touch the disk through \<^verbatim>\<open>open\<close>, \<^verbatim>\<open>os.path.isfile\<close>, \<^verbatim>\<open>os.path.exists\<close>,
  \<^verbatim>\<open>os.makedirs\<close> and \<^verbatim>\<open>shutil.copy2\<close>.  The disk is a store from path strings to the
  bytes of the regular file of that name, together with the set of directories and the set
  of paths at which the operating system refuses to create or write (permissions, read-only
  media, a full disk): that set is what makes the \<^verbatim>\<open>except\<close> branches of the source
  reachable.  A path string names one file; two spellings of one file are not identified.
\<close>

type_synonym bytes = "8 word list"

record filesys =
  files :: "string \<rightharpoonup> bytes"
  dirs :: "string set"
  denied :: "string set"

text \<open>The exceptions of the operating system calls.  \<open>FileExistsOSError\<close> is Python's
  \<^verbatim>\<open>FileExistsError\<close> as \<^verbatim>\<open>os.mkdir\<close> raises it.\<close>

datatype os_error = FileNotFoundError | SameFileError | PermissionError | IsADirectoryError
  | NotADirectoryError | FileExistsOSError

definition isfile :: "filesys \<Rightarrow> string \<Rightarrow> bool" where
  "isfile fs p = (files fs p \<noteq> None)"

definition exists_path :: "filesys \<Rightarrow> string \<Rightarrow> bool" where
  "exists_path fs p = (files fs p \<noteq> None \<or> p \<in> dirs fs)"

text \<open>\<^verbatim>\<open>open(p, 'rb').read()\<close>\<close>

definition read_file :: "filesys \<Rightarrow> string \<Rightarrow> os_error + bytes" where
  "read_file fs p = (case files fs p of None \<Rightarrow> Inl FileNotFoundError | Some c \<Rightarrow> Inr c)"

text \<open>\<^verbatim>\<open>open(p, 'wb').write(data)\<close>\<close>

definition write_file :: "filesys \<Rightarrow> string \<Rightarrow> bytes \<Rightarrow> os_error + filesys" where
  "write_file fs p data =
     (if p \<in> dirs fs then Inl IsADirectoryError
      else if p \<in> denied fs then Inl PermissionError
      else Inr (fs\<lparr>files := (files fs)(p \<mapsto> data)\<rparr>))"

section \<open>crypto\_utils.decrypt\_file\<close>

text \<open>
  The key derivation (PBKDF2-HMAC-SHA256, urlsafe base64) and the Fernet token check come
  from the \<^verbatim>\<open>cryptography\<close> package; they are parameters of the model.  Fernet decryption
  either returns the plaintext or raises \<^verbatim>\<open>InvalidToken\<close> (wrong key, tampered token).
\<close>

record crypto_lib =
  derive_fernet_key :: "string \<Rightarrow> bytes \<Rightarrow> bytes"
  fernet_decrypt :: "bytes \<Rightarrow> bytes \<Rightarrow> bytes option"

datatype decrypt_error = ValueError | InvalidToken | FileExistsError | OSError os_error

definition SALT_SIZE :: nat where
  "SALT_SIZE = 16"

definition endswith :: "string \<Rightarrow> string \<Rightarrow> bool" where
  "endswith s suf = (length suf \<le> length s \<and> drop (length s - length suf) s = suf)"

definition decrypt_out_path :: "string \<Rightarrow> string" where
  "decrypt_out_path enc_path =
     (if endswith enc_path ''.enc'' then take (length enc_path - 4) enc_path
      else enc_path @ ''.dec'')"

definition decrypt_file ::
  "crypto_lib \<Rightarrow> string \<Rightarrow> string \<Rightarrow> filesys \<Rightarrow> (decrypt_error + string) \<times> filesys" where
  "decrypt_file lib enc_path password fs =
     (case read_file fs enc_path of
        Inl e \<Rightarrow> (Inl (OSError e), fs)
      | Inr content \<Rightarrow>
          if length content \<le> SALT_SIZE then (Inl ValueError, fs)
          else
            let salt = take SALT_SIZE content;
                token = drop SALT_SIZE content;
                key = derive_fernet_key lib password salt
            in (case fernet_decrypt lib key token of
                  None \<Rightarrow> (Inl InvalidToken, fs)
                | Some data \<Rightarrow>
                    let out_path = decrypt_out_path enc_path in
                    if exists_path fs out_path then (Inl FileExistsError, fs)
                    else (case write_file fs out_path data of
                            Inl e \<Rightarrow> (Inl (OSError e), fs)
                          | Inr fs' \<Rightarrow> (Inr out_path, fs'))))"

text \<open>A stand-in for the library, used only to run \<open>decrypt_file\<close> on concrete files: the
  key is the salt, and a token is the key followed by the plaintext.\<close>

definition toy_lib :: crypto_lib where
  "toy_lib = \<lparr>derive_fernet_key = (\<lambda>password salt. salt),
              fernet_decrypt = (\<lambda>key token.
                 if take (length key) token = key then Some (drop (length key) token) else None)\<rparr>"

definition toy_salt :: bytes where
  "toy_salt = [1, 2, 3, 4, 5, 6, 7, 8, 9, 10, 11, 12, 13, 14, 15, 16]"

definition toy_disk :: filesys where
  "toy_disk = \<lparr>files = [''/d/short.enc'' \<mapsto> toy_salt,
                        ''/d/bad.enc'' \<mapsto> toy_salt @ [0, 0, 7],
                        ''/d/good.enc'' \<mapsto> toy_salt @ toy_salt @ [104, 105],
                        ''/d/good'' \<mapsto> [0],
                        ''/d/new.enc'' \<mapsto> toy_salt @ toy_salt @ [104, 105]],
               dirs = {''/d''}, denied = {}\<rparr>"

section \<open>Strings and path names\<close>

text \<open>
  The string methods and the \<^verbatim>\<open>os.path\<close> functions the monitor calls, written after the
  POSIX flavour of the Python library (\<^verbatim>\<open>posixpath\<close>): the separator is \<open>/\<close> and
  \<^verbatim>\<open>normcase\<close> changes nothing.  The current directory, which \<^verbatim>\<open>abspath\<close> and \<^verbatim>\<open>relpath\<close>
  read from the process, is an argument.  \<^verbatim>\<open>str.lower\<close> and \<^verbatim>\<open>str.strip\<close> are given for ASCII.
\<close>

definition lower_char :: "char \<Rightarrow> char" where
  "lower_char c =
     (case map_of (zip ''ABCDEFGHIJKLMNOPQRSTUVWXYZ'' ''abcdefghijklmnopqrstuvwxyz'') c of
        None \<Rightarrow> c
      | Some d \<Rightarrow> d)"

definition lower :: "string \<Rightarrow> string" where
  "lower s = map lower_char s"

definition is_space :: "char \<Rightarrow> bool" where
  "is_space c =
     (c \<in> set [CHR 0x09, CHR 0x0A, CHR 0x0B, CHR 0x0C, CHR 0x0D,
                CHR 0x1C, CHR 0x1D, CHR 0x1E, CHR 0x1F, CHR 0x20])"

definition strip :: "string \<Rightarrow> string" where
  "strip s = rev (dropWhile is_space (rev (dropWhile is_space s)))"

text \<open>\<^verbatim>\<open>s.split(c)\<close> for a one-character separator; the result is never empty.\<close>

fun split_on :: "char \<Rightarrow> string \<Rightarrow> string list" where
  "split_on c [] = [[]]"
| "split_on c (x # xs) =
     (if x = c then [] # split_on c xs
      else (case split_on c xs of w # ws \<Rightarrow> (x # w) # ws | [] \<Rightarrow> [[x]]))"

text \<open>\<^verbatim>\<open>sep.join(xs)\<close>\<close>

fun join_with :: "string \<Rightarrow> string list \<Rightarrow> string" where
  "join_with sep [] = []"
| "join_with sep [x] = x"
| "join_with sep (x # y # ys) = x @ sep @ join_with sep (y # ys)"

definition replace_char :: "char \<Rightarrow> char \<Rightarrow> string \<Rightarrow> string" where
  "replace_char a b s = map (\<lambda>c. if c = a then b else c) s"

definition startswith :: "string \<Rightarrow> string \<Rightarrow> bool" where
  "startswith s pre = (take (length pre) s = pre)"

definition isabs :: "string \<Rightarrow> bool" where
  "isabs p = startswith p ''/''"

definition basename :: "string \<Rightarrow> string" where
  "basename p = last (split_on CHR ''/'' p)"

text \<open>\<^verbatim>\<open>head = p[:i]; if head and head != '/'*len(head): head = head.rstrip('/')\<close>\<close>

definition dirname :: "string \<Rightarrow> string" where
  "dirname p =
     (let head = take (length p - length (basename p)) p in
      if head \<noteq> [] \<and> head \<noteq> replicate (length head) CHR ''/''
      then rev (dropWhile (\<lambda>c. c = CHR ''/'') (rev head)) else head)"

text \<open>\<^verbatim>\<open>os.path.join(a, b)\<close>\<close>

definition join :: "string \<Rightarrow> string \<Rightarrow> string" where
  "join a b =
     (if startswith b ''/'' then b
      else if a = [] \<or> endswith a ''/'' then a @ b
      else a @ ''/'' @ b)"

definition norm_step :: "bool \<Rightarrow> string list \<Rightarrow> string \<Rightarrow> string list" where
  "norm_step initial_slashes new_comps component =
     (if component = [] \<or> component = ''.'' then new_comps
      else if component \<noteq> ''..'' \<or> (\<not> initial_slashes \<and> new_comps = [])
              \<or> (new_comps \<noteq> [] \<and> last new_comps = ''..'')
      then new_comps @ [component]
      else if new_comps \<noteq> [] then butlast new_comps
      else new_comps)"

definition normpath :: "string \<Rightarrow> string" where
  "normpath path =
     (if path = [] then ''.''
      else
        let initial_slashes =
              (if startswith path ''/''
               then (if startswith path ''//'' \<and> \<not> startswith path ''///'' then 2 else 1)
               else (0::nat));
            comps = foldl (norm_step (initial_slashes \<noteq> 0)) [] (split_on CHR ''/'' path);
            p = replicate initial_slashes CHR ''/'' @ join_with ''/'' comps
        in if p = [] then ''.'' else p)"

definition normcase :: "string \<Rightarrow> string" where
  "normcase p = p"

definition abspath :: "string \<Rightarrow> string \<Rightarrow> string" where
  "abspath cwd path = normpath (if isabs path then path else join cwd path)"

fun common_prefix_len :: "string list \<Rightarrow> string list \<Rightarrow> nat" where
  "common_prefix_len (x # xs) (y # ys) = (if x = y then Suc (common_prefix_len xs ys) else 0)"
| "common_prefix_len _ _ = 0"

text \<open>\<^verbatim>\<open>os.path.relpath(path, start)\<close>; \<open>None\<close> is the \<^verbatim>\<open>ValueError\<close> raised for an empty path.\<close>

definition relpath :: "string \<Rightarrow> string \<Rightarrow> string \<Rightarrow> string option" where
  "relpath cwd path start =
     (if path = [] then None
      else
        let start_list = filter (\<lambda>x. x \<noteq> []) (split_on CHR ''/'' (abspath cwd start));
            path_list = filter (\<lambda>x. x \<noteq> []) (split_on CHR ''/'' (abspath cwd path));
            i = common_prefix_len start_list path_list;
            rel_list = replicate (length start_list - i) ''..'' @ drop i path_list
        in if rel_list = [] then Some ''.'' else Some (join_with ''/'' rel_list))"

section \<open>Creating directories and copying files\<close>

text \<open>
  \<^verbatim>\<open>os.mkdir(name)\<close> as \<^verbatim>\<open>os.makedirs(..., exist_ok=True)\<close> uses it: an existing directory
  is accepted; a regular file of that name, a regular file in the place of the parent, a
  missing parent and a refused path raise.  The result is the exception, if any, and the
  disk afterwards.  \<open>split_head\<close> and \<open>split_tail\<close> are the two parts \<^verbatim>\<open>os.makedirs\<close> takes from
  \<^verbatim>\<open>os.path.split\<close>, split once more when the name ends in a separator.
\<close>

definition split_head :: "string \<Rightarrow> string" where
  "split_head name = (if basename name = [] then dirname (dirname name) else dirname name)"

definition split_tail :: "string \<Rightarrow> string" where
  "split_tail name = (if basename name = [] then basename (dirname name) else basename name)"

text \<open>The operating system resolves a name that ends in separators to the directory
  without them; \<^verbatim>\<open>os.path.join(d, '')\<close> yields such a name.\<close>

definition rstrip_sep :: "string \<Rightarrow> string" where
  "rstrip_sep name =
     (if name = replicate (length name) CHR ''/'' then name
      else rev (dropWhile (\<lambda>c. c = CHR ''/'') (rev name)))"

definition mkdir :: "filesys \<Rightarrow> string \<Rightarrow> os_error option \<times> filesys" where
  "mkdir fs name =
     (let d = rstrip_sep name;
          parent = split_head name
      in if d \<in> dirs fs then (None, fs)
         else if isfile fs d then (Some FileExistsOSError, fs)
         else if parent \<noteq> [] \<and> parent \<noteq> d \<and> isfile fs parent then (Some NotADirectoryError, fs)
         else if parent \<noteq> [] \<and> parent \<noteq> d \<and> parent \<notin> dirs fs then (Some FileNotFoundError, fs)
         else if d \<in> denied fs then (Some PermissionError, fs)
         else (None, fs\<lparr>dirs := insert d (dirs fs)\<rparr>))"

text \<open>
  \<^verbatim>\<open>os.makedirs(name, exist_ok=True)\<close>: the missing ancestors are created first, outermost
  first, then the directory itself; a \<^verbatim>\<open>FileExistsError\<close> of the recursive call is passed
  over, as in the library.  Directories created before an exception stay.
\<close>

function makedirs :: "filesys \<Rightarrow> string \<Rightarrow> os_error option \<times> filesys" where
  "makedirs fs name =
     (if name = [] then (Some FileNotFoundError, fs)
      else if split_head name \<noteq> [] \<and> split_tail name \<noteq> []
              \<and> \<not> exists_path fs (split_head name)
      then (case makedirs fs (split_head name) of
              (r, fs1) \<Rightarrow>
                if r \<noteq> None \<and> r \<noteq> Some FileExistsOSError then (r, fs1)
                else if split_tail name = ''.'' then (None, fs1)
                else mkdir fs1 name)
      else mkdir fs name)"
  by pat_completeness auto
termination
proof (relation "measure (\<lambda>(fs, name). length name)")
  show "wf (measure (\<lambda>(fs, name). length name))" by simp
next
  fix fs :: filesys and name :: string
  assume ne: "name \<noteq> []"
    and c: "split_head name \<noteq> [] \<and> split_tail name \<noteq> []
            \<and> \<not> exists_path fs (split_head name)"
  have le: "length (dirname p) \<le> length p" for p
    by (auto simp: dirname_def Let_def intro: order_trans [OF length_dropWhile_le])
  have lt: "length (dirname p) < length p" if "basename p \<noteq> []" "p \<noteq> []" for p
  proof -
    have "length (take (length p - length (basename p)) p) < length p"
      using that by (cases p) auto
    then show ?thesis
      by (auto simp: dirname_def Let_def intro: le_less_trans [OF length_dropWhile_le])
  qed
  have "length (split_head name) < length name"
  proof (cases "basename name = []")
    case False
    with lt [OF False ne] show ?thesis by (simp add: split_head_def)
  next
    case True
    with c have b: "basename (dirname name) \<noteq> []" by (simp add: split_tail_def)
    have d: "dirname name \<noteq> []"
    proof
      assume "dirname name = []"
      then have "dirname (dirname name) = []" by (simp add: dirname_def basename_def)
      with c True show False by (simp add: split_head_def)
    qed
    from lt [OF b d] le [of name] True show ?thesis by (simp add: split_head_def)
  qed
  then show "((fs, split_head name), (fs, name)) \<in> measure (\<lambda>(fs, name). length name)"
    by simp
qed

declare makedirs.simps [simp del]

text \<open>
  \<^verbatim>\<open>shutil.copy2(src, dst)\<close>.  When \<open>dst\<close> is an existing directory the file is written
  inside it under the basename of \<open>src\<close>; otherwise \<open>dst\<close> itself is written.  It raises when
  \<open>src\<close> is not a regular file, when source and target are the same file, when the target
  is a directory, when the directory of the target does not exist, and when the target
  cannot be written.
\<close>

definition copy_target :: "filesys \<Rightarrow> string \<Rightarrow> string \<Rightarrow> string" where
  "copy_target fs src dst = (if dst \<in> dirs fs then join dst (basename src) else dst)"

definition copy2 :: "filesys \<Rightarrow> string \<Rightarrow> string \<Rightarrow> os_error + filesys" where
  "copy2 fs src dst =
     (let target = copy_target fs src dst in
      case files fs src of
        None \<Rightarrow> Inl (if src \<in> dirs fs then IsADirectoryError else FileNotFoundError)
      | Some c \<Rightarrow>
          if src = target then Inl SameFileError
          else if target \<in> dirs fs then Inl IsADirectoryError
          else if dirname target \<noteq> [] \<and> dirname target \<notin> dirs fs
          then Inl (if isfile fs (dirname target) then NotADirectoryError else FileNotFoundError)
          else if target \<in> denied fs then Inl PermissionError
          else Inr (fs\<lparr>files := (files fs)(target \<mapsto> c)\<rparr>))"

section \<open>Configuration and the scope filter\<close>

text \<open>
  The module globals computed from the command line.  \<^verbatim>\<open>BASENAMES\<close> and \<^verbatim>\<open>RELPATHS\<close> are
  \<^verbatim>\<open>None\<close> when no \<^verbatim>\<open>--files\<close> is given and sets otherwise.  \<open>cwd\<close> is the working directory
  of the process.
\<close>

record config =
  cwd :: string
  TARGET_DIRECTORY :: string
  BASENAMES :: "string set option"
  RELPATHS :: "string set option"
  SNAPSHOT_DIR :: string
  DUPLICATES_DIR :: string
  spike_cfg :: spike_config

text \<open>Lines 29 to 41: the parsing of \<^verbatim>\<open>args.files\<close>.\<close>

definition add_token :: "string set \<times> string set \<Rightarrow> string \<Rightarrow> string set \<times> string set" where
  "add_token acc token =
     (let t = replace_char (CHR 0x5C) CHR ''/'' token in
      if CHR ''/'' \<in> set t then (fst acc, insert (normcase (normpath t)) (snd acc))
      else (insert (lower t) (fst acc), snd acc))"

definition parse_files :: "string \<Rightarrow> string set option \<times> string set option" where
  "parse_files args_files =
     (if args_files \<noteq> [] \<and> strip args_files \<noteq> []
      then
        let raw = map strip (filter (\<lambda>s. strip s \<noteq> []) (split_on CHR '','' args_files));
            sets = foldl add_token ({}, {}) raw
        in (Some (fst sets), Some (snd sets))
      else (None, None))"

text \<open>Python truth value of a set or \<^verbatim>\<open>None\<close>, and membership guarded by it
  (\<^verbatim>\<open>S and x in S\<close>).\<close>

definition truthy :: "string set option \<Rightarrow> bool" where
  "truthy so = (case so of None \<Rightarrow> False | Some S \<Rightarrow> S \<noteq> {})"

definition and_in :: "string set option \<Rightarrow> string \<Rightarrow> bool" where
  "and_in so x = (truthy so \<and> (case so of None \<Rightarrow> False | Some S \<Rightarrow> x \<in> S))"

definition is_monitored_path :: "config \<Rightarrow> string \<Rightarrow> bool" where
  "is_monitored_path cfg abs_path =
     (if BASENAMES cfg = None \<and> RELPATHS cfg = None then True
      else
        let rel = (case relpath (cwd cfg) abs_path (TARGET_DIRECTORY cfg) of
                     Some r \<Rightarrow> r
                   | None \<Rightarrow> basename abs_path);
            rel_norm = normcase (normpath rel)
        in if and_in (RELPATHS cfg) rel_norm then True
           else if and_in (BASENAMES cfg) (lower (basename abs_path)) then True
           else False)"

text \<open>The members of a filter set, \<^verbatim>\<open>None\<close> having none.\<close>

definition members :: "string set option \<Rightarrow> string set" where
  "members so = (case so of None \<Rightarrow> {} | Some S \<Rightarrow> S)"

definition example_config :: config where
  "example_config =
     \<lparr>cwd = ''/home/u'', TARGET_DIRECTORY = ''/home/u/t'',
      BASENAMES = Some {''notes.txt''}, RELPATHS = Some {''docs/a.txt''},
      SNAPSHOT_DIR = ''/home/u/snapshots'', DUPLICATES_DIR = ''/home/u/duplicates'',
      spike_cfg = example_spike_config\<rparr>"

definition unrestricted_config :: config where
  "unrestricted_config = example_config\<lparr>BASENAMES := None, RELPATHS := None\<rparr>"

definition empty_filter_config :: config where
  "empty_filter_config =
     example_config\<lparr>BASENAMES := fst (parse_files '',''), RELPATHS := snd (parse_files '','')\<rparr>"

section \<open>Events: the watchdog handler and the polling loop\<close>

text \<open>Readings of \<^verbatim>\<open>datetime.now(timezone.utc)\<close> and the two formats the monitor prints them
  in.\<close>

record datetime =
  year :: nat
  month :: nat
  day :: nat
  hour :: nat
  minute :: nat
  second :: nat
  microsecond :: nat

definition digit :: "nat \<Rightarrow> char" where
  "digit d = ''0123456789'' ! (d mod 10)"

definition pad2 :: "nat \<Rightarrow> string" where
  "pad2 n = [digit (n div 10), digit n]"

definition pad4 :: "nat \<Rightarrow> string" where
  "pad4 n = [digit (n div 1000), digit (n div 100), digit (n div 10), digit n]"

definition pad6 :: "nat \<Rightarrow> string" where
  "pad6 n = [digit (n div 100000), digit (n div 10000), digit (n div 1000),
             digit (n div 100), digit (n div 10), digit n]"

text \<open>\<^verbatim>\<open>strftime("%Y%m%dT%H%M%S")\<close>\<close>

definition strftime_compact :: "datetime \<Rightarrow> string" where
  "strftime_compact dt =
     pad4 (year dt) @ pad2 (month dt) @ pad2 (day dt) @ ''T''
       @ pad2 (hour dt) @ pad2 (minute dt) @ pad2 (second dt)"

definition isoformat :: "datetime \<Rightarrow> string" where
  "isoformat dt =
     pad4 (year dt) @ ''-'' @ pad2 (month dt) @ ''-'' @ pad2 (day dt) @ ''T''
       @ pad2 (hour dt) @ '':'' @ pad2 (minute dt) @ '':'' @ pad2 (second dt)
       @ (if microsecond dt = 0 then [] else ''.'' @ pad6 (microsecond dt)) @ ''+00:00''"

text \<open>The dictionary \<^verbatim>\<open>_enqueue\<close> puts on the queue.\<close>

record event =
  ev_time :: string
  ev_type :: string
  src_path :: string
  dest_path :: string

text \<open>
  \<^verbatim>\<open>GuiEventHandler._enqueue\<close>.  The queue is a list, oldest first: \<^verbatim>\<open>put\<close> appends, and
  \<^verbatim>\<open>get_nowait\<close> takes the head.  \<open>dest\<close> is \<open>None\<close> for the default argument.
\<close>

definition or_empty :: "string option \<Rightarrow> string" where
  "or_empty so = (case so of None \<Rightarrow> [] | Some s \<Rightarrow> s)"

definition check_path_of :: "string \<Rightarrow> string option \<Rightarrow> string" where
  "check_path_of src dest = (if src \<noteq> [] then src else or_empty dest)"

definition enqueue ::
  "config \<Rightarrow> datetime \<Rightarrow> string \<Rightarrow> string \<Rightarrow> string option \<Rightarrow> event list \<Rightarrow> event list" where
  "enqueue cfg now ty src dest queue =
     (let check_path = check_path_of src dest in
      if check_path = [] then queue
      else if \<not> is_monitored_path cfg (abspath (cwd cfg) check_path) then queue
      else queue @ [\<lparr>ev_time = isoformat now, ev_type = ty,
                      src_path = (if src \<noteq> [] then abspath (cwd cfg) src else []),
                      dest_path = (if or_empty dest \<noteq> [] then abspath (cwd cfg) (or_empty dest)
                                   else [])\<rparr>])"

text \<open>The events watchdog delivers, and the four \<^verbatim>\<open>on_...\<close> methods.\<close>

datatype raw_kind = Created | Deleted | Modified | Moved

record raw_event =
  kind :: raw_kind
  is_directory :: bool
  raw_src :: string
  raw_dest :: string

definition dispatch :: "config \<Rightarrow> datetime \<Rightarrow> raw_event \<Rightarrow> event list \<Rightarrow> event list" where
  "dispatch cfg now ev queue =
     (case kind ev of
        Created \<Rightarrow> enqueue cfg now ''created'' (raw_src ev) None queue
      | Deleted \<Rightarrow> enqueue cfg now ''deleted'' (raw_src ev) None queue
      | Modified \<Rightarrow>
          if is_directory ev then queue
          else enqueue cfg now ''modified'' (raw_src ev) None queue
      | Moved \<Rightarrow> enqueue cfg now ''moved'' (raw_src ev) (Some (raw_dest ev)) queue)"

text \<open>The path \<^verbatim>\<open>_enqueue\<close> checks for a watchdog event.\<close>

definition raw_check_path :: "raw_event \<Rightarrow> string" where
  "raw_check_path ev =
     check_path_of (raw_src ev) (if kind ev = Moved then Some (raw_dest ev) else None)"

text \<open>One row of the CSV audit log.\<close>

record audit_row =
  timestamp_iso :: string
  event_type :: string
  event_path :: string
  action_taken :: string
  note_field :: string

text \<open>
  The state of \<^verbatim>\<open>MonitorGUI\<close> together with what it acts on: the queue, the event list
  (newest first), the spike detector, the selected index, the disk, the rows appended to
  the audit log so far, and the alert payloads handed to \<^verbatim>\<open>root.after\<close>.  The audit log is
  a file of its own, kept apart from \<open>disk\<close>; its header line is not represented.  Status
  lines and message boxes are not state: what a method reports is its result value.
\<close>

record monitor =
  queue :: "event list"
  events :: "event list"
  spike :: spike_state
  selected_index :: "nat option"
  disk :: filesys
  log :: "audit_row list"
  scheduled :: "string list list"

definition csv_log :: "audit_row \<Rightarrow> monitor \<Rightarrow> monitor" where
  "csv_log row s = s\<lparr>log := log s @ [row]\<rparr>"

definition track_path :: "event \<Rightarrow> string" where
  "track_path ev = (if src_path ev \<noteq> [] then src_path ev else dest_path ev)"

definition is_mod_class :: "event \<Rightarrow> bool" where
  "is_mod_class ev = (ev_type ev \<in> set [''modified'', ''created'', ''moved''])"

text \<open>
  The body of the \<^verbatim>\<open>while True\<close> loop of \<^verbatim>\<open>poll_queue\<close> for one dequeued event; \<open>t\<close> is the
  reading of \<^verbatim>\<open>time.time()\<close> that \<^verbatim>\<open>_record_mod_event\<close> takes if it is called.
\<close>

definition poll_one :: "config \<Rightarrow> real \<Rightarrow> event \<Rightarrow> monitor \<Rightarrow> monitor" where
  "poll_one cfg t ev s =
     (let s1 = s\<lparr>events := ev # events s\<rparr> in
      if is_mod_class ev then
        (if track_path ev \<noteq> [] then s1\<lparr>spike := record_mod_event (spike_cfg cfg) t (track_path ev) (spike s1)\<rparr>
         else s1)
      else s1)"

text \<open>Draining the queue; \<open>clk n\<close> is the clock reading taken for the \<open>n\<close>-th event of this
  poll.\<close>

fun drain :: "config \<Rightarrow> (nat \<Rightarrow> real) \<Rightarrow> nat \<Rightarrow> event list \<Rightarrow> monitor \<Rightarrow> monitor" where
  "drain cfg clk n [] s = s"
| "drain cfg clk n (ev # rest) s = drain cfg clk (Suc n) rest (poll_one cfg (clk n) ev s)"

definition poll_queue :: "config \<Rightarrow> (nat \<Rightarrow> real) \<Rightarrow> monitor \<Rightarrow> monitor" where
  "poll_queue cfg clk s =
     (if queue s = [] then s
      else
        let n = length (queue s);
            s1 = drain cfg clk 0 (queue s) (s\<lparr>queue := []\<rparr>);
            r = maybe_trigger_spike (spike_cfg cfg) (clk n) (clk (n + 1)) (clk (n + 2)) (spike s1)
        in s1\<lparr>spike := snd r,
               scheduled := scheduled s1 @ (case fst r of None \<Rightarrow> [] | Some p \<Rightarrow> [p])\<rparr>)"

definition init_monitor :: "filesys \<Rightarrow> monitor" where
  "init_monitor fs =
     \<lparr>queue = [], events = [], spike = init_spike, selected_index = None, disk = fs,
      log = [], scheduled = []\<rparr>"

text \<open>The entries \<^verbatim>\<open>drain\<close> hands to \<^verbatim>\<open>_record_mod_event\<close>, with their clock readings.\<close>

fun recorded_of :: "(nat \<Rightarrow> real) \<Rightarrow> nat \<Rightarrow> event list \<Rightarrow> (real \<times> string) list" where
  "recorded_of clk n [] = []"
| "recorded_of clk n (ev # rest) =
     (if is_mod_class ev \<and> track_path ev \<noteq> [] then [(clk n, track_path ev)] else [])
       @ recorded_of clk (Suc n) rest"

section \<open>Snapshots, ignore and restore\<close>

definition snapshot_path_for :: "config \<Rightarrow> string \<Rightarrow> string" where
  "snapshot_path_for cfg abs_path =
     (case relpath (cwd cfg) abs_path (TARGET_DIRECTORY cfg) of
        None \<Rightarrow> []
      | Some rel \<Rightarrow> join (SNAPSHOT_DIR cfg) rel)"

text \<open>\<^verbatim>\<open>str(e)\<close> of a caught exception.\<close>

definition str_error :: "os_error \<Rightarrow> string" where
  "str_error e =
     (case e of FileNotFoundError \<Rightarrow> ''No such file or directory''
      | SameFileError \<Rightarrow> ''are the same file''
      | PermissionError \<Rightarrow> ''Permission denied''
      | IsADirectoryError \<Rightarrow> ''Is a directory''
      | NotADirectoryError \<Rightarrow> ''Not a directory''
      | FileExistsOSError \<Rightarrow> ''File exists'')"

definition update_snapshot_for :: "config \<Rightarrow> string \<Rightarrow> filesys \<Rightarrow> (bool \<times> string) \<times> filesys" where
  "update_snapshot_for cfg abs_path fs =
     (let sp = snapshot_path_for cfg abs_path in
      if sp = [] then ((False, ''no_snapshot_path''), fs)
      else (case makedirs fs (dirname sp) of
              (Some e, fs1) \<Rightarrow> ((False, str_error e), fs1)
            | (None, fs1) \<Rightarrow>
                (case copy2 fs1 abs_path sp of
                   Inl e \<Rightarrow> ((False, str_error e), fs1)
                 | Inr fs2 \<Rightarrow> ((True, sp), fs2))))"

text \<open>
  What a button handler reports; the spec calls \<open>SnapshotMissing\<close> the \<^verbatim>\<open>NoSnapshotError\<close>
  outcome.  \<open>Uncaught\<close> is an exception no \<^verbatim>\<open>except\<close> clause of the handler catches; Tk
  prints it and the main loop goes on.
\<close>

datatype outcome =
    SelectEvent
  | NoSourcePath
  | SnapshotMissing string
  | DestDirError os_error
  | RestoreFailed os_error
  | PartialSuccess os_error
  | Restored string
  | Ignored "(bool \<times> string) option"
  | Uncaught

text \<open>\<^verbatim>\<open>MonitorGUI.mark_ignore\<close>\<close>

definition mark_ignore :: "config \<Rightarrow> datetime \<Rightarrow> monitor \<Rightarrow> outcome \<times> monitor" where
  "mark_ignore cfg now s =
     (case selected_index s of
        None \<Rightarrow> (SelectEvent, s)
      | Some i \<Rightarrow>
          if length (events s) \<le> i then (Uncaught, s)
          else
            let ev = events s ! i;
                s1 = csv_log \<lparr>timestamp_iso = isoformat now, event_type = ev_type ev,
                               event_path = src_path ev, action_taken = ''ignored_by_user'',
                               note_field = ''user indicated they performed the action''\<rparr> s
            in if src_path ev \<noteq> [] \<and> isfile (disk s1) (src_path ev)
               then (let r = update_snapshot_for cfg (src_path ev) (disk s1)
                     in (Ignored (Some (fst r)), s1\<lparr>disk := snd r\<rparr>))
               else (Ignored None, s1))"

text \<open>\<^verbatim>\<open>MonitorGUI.restore_original\<close>; \<open>now\<close> is the clock reading that names the duplicate and
  \<open>now_row\<close> the one that stamps the audit row.\<close>

definition restore_original ::
  "config \<Rightarrow> datetime \<Rightarrow> datetime \<Rightarrow> monitor \<Rightarrow> outcome \<times> monitor" where
  "restore_original cfg now now_row s =
     (case selected_index s of
        None \<Rightarrow> (SelectEvent, s)
      | Some i \<Rightarrow>
          if length (events s) \<le> i then (Uncaught, s)
          else
            let ev = events s ! i;
                src = src_path ev;
                row = (\<lambda>action n. \<lparr>timestamp_iso = isoformat now_row, event_type = ev_type ev,
                                     event_path = src, action_taken = action, note_field = n\<rparr>)
            in if src = [] then (NoSourcePath, s)
               else
                 let snapshot_path = snapshot_path_for cfg src in
                 if snapshot_path = [] \<or> \<not> isfile (disk s) snapshot_path
                 then (SnapshotMissing snapshot_path,
                       csv_log (row ''restore_failed_no_snapshot'' snapshot_path) s)
                 else
                   (case makedirs (disk s) (dirname src) of
                      (Some e, fs1) \<Rightarrow> (DestDirError e, s\<lparr>disk := fs1\<rparr>)
                    | (None, fs1) \<Rightarrow>
                   (case copy2 fs1 snapshot_path src of
                      Inl e \<Rightarrow> (RestoreFailed e,
                                 csv_log (row ''restore_failed_copy_error'' (str_error e))
                                   (s\<lparr>disk := fs1\<rparr>))
                    | Inr fs2 \<Rightarrow>
                   (let base = basename src;
                        ts = strftime_compact now;
                        dup_name = base @ ''.'' @ ts @ ''.orig''
                    in case relpath (cwd cfg) src (TARGET_DIRECTORY cfg) of
                         None \<Rightarrow> (Uncaught, s\<lparr>disk := fs2\<rparr>)
                       | Some rel \<Rightarrow>
                   (let dup_subdir = join (DUPLICATES_DIR cfg) (dirname rel) in
                    case makedirs fs2 dup_subdir of
                      (Some e, fs3) \<Rightarrow> (Uncaught, s\<lparr>disk := fs3\<rparr>)
                    | (None, fs3) \<Rightarrow>
                   (let dup_path = join dup_subdir dup_name in
                    case copy2 fs3 snapshot_path dup_path of
                      Inl e \<Rightarrow> (PartialSuccess e,
                                 csv_log (row ''restore_but_duplicate_failed'' (str_error e))
                                   (s\<lparr>disk := fs3\<rparr>))
                    | Inr fs4 \<Rightarrow> (Restored dup_path,
                                  csv_log (row ''restored_and_duplicated'' dup_path)
                                    (s\<lparr>disk := fs4\<rparr>))))))))"

text \<open>A concrete clock reading and disk for evaluating the handlers: \<open>docs/a.txt\<close> has a
  snapshot that differs from the live file, \<open>x/notes.txt\<close> has none.\<close>

definition example_now :: datetime where
  "example_now =
     \<lparr>year = 2026, month = 11, day = 3, hour = 9, minute = 5, second = 7, microsecond = 0\<rparr>"

definition example_disk :: filesys where
  "example_disk =
     \<lparr>files = [''/home/u/t/docs/a.txt'' \<mapsto> [1, 2, 3],
               ''/home/u/t/x/notes.txt'' \<mapsto> [9],
               ''/home/u/snapshots/docs/a.txt'' \<mapsto> [7, 7]],
      dirs = {''/'', ''/home'', ''/home/u'', ''/home/u/t'', ''/home/u/t/docs'', ''/home/u/t/x'',
              ''/home/u/snapshots'', ''/home/u/snapshots/docs'', ''/home/u/duplicates''},
      denied = {}\<rparr>"

definition event_a :: event where
  "event_a = \<lparr>ev_time = ''2026-11-03T09:05:07+00:00'', ev_type = ''modified'',
              src_path = ''/home/u/t/docs/a.txt'', dest_path = []\<rparr>"

definition event_notes :: event where
  "event_notes = \<lparr>ev_time = ''2026-11-03T09:05:07+00:00'', ev_type = ''moved'',
                  src_path = [], dest_path = ''/home/u/t/x/notes.txt''\<rparr>"

definition event_notes_deleted :: event where
  "event_notes_deleted = \<lparr>ev_time = ''2026-11-03T09:05:07+00:00'', ev_type = ''deleted'',
                          src_path = ''/home/u/t/x/notes.txt'', dest_path = []\<rparr>"

definition monitor_a :: monitor where
  "monitor_a = (init_monitor example_disk)\<lparr>events := [event_a], selected_index := Some 0\<rparr>"

definition monitor_notes :: monitor where
  "monitor_notes =
     (init_monitor example_disk)\<lparr>events := [event_notes_deleted], selected_index := Some 0\<rparr>"











section \<open>The alert dialog and the monitor as a whole\<close>

text \<open>\<^verbatim>\<open>str(n)\<close> for a natural number.\<close>

fun str_nat :: "nat \<Rightarrow> string" where
  "str_nat n = (if n < 10 then [digit n] else str_nat (n div 10) @ [digit n])"

declare str_nat.simps [simp del]

text \<open>The loop of \<^verbatim>\<open>_show_spike_alert\<close> after the answer "yes".\<close>

fun confirm_paths :: "config \<Rightarrow> datetime \<Rightarrow> string list \<Rightarrow> monitor \<Rightarrow> monitor" where
  "confirm_paths cfg now [] s = s"
| "confirm_paths cfg now (p # ps) s =
     (if isfile (disk s) p
      then (let r = update_snapshot_for cfg p (disk s);
                s1 = s\<lparr>disk := snd r\<rparr>
            in if fst (fst r)
               then confirm_paths cfg now ps
                      (csv_log \<lparr>timestamp_iso = isoformat now,
                                event_type = ''snapshot_updated_by_user'', event_path = p,
                                action_taken = ''snapshot_updated'',
                                note_field = snd (fst r)\<rparr> s1)
               else confirm_paths cfg now ps s1)
      else confirm_paths cfg now ps s)"

text \<open>The first index whose event satisfies \<open>P\<close> (the \<^verbatim>\<open>for idx, ev in enumerate(...)\<close> loop
  with its \<^verbatim>\<open>break\<close>).\<close>

fun first_index :: "(event \<Rightarrow> bool) \<Rightarrow> event list \<Rightarrow> nat option" where
  "first_index P [] = None"
| "first_index P (ev # evs) = (if P ev then Some 0 else map_option Suc (first_index P evs))"

text \<open>\<^verbatim>\<open>_show_spike_alert\<close>; \<open>answered\<close> is \<open>Some True\<close> for "yes", \<open>Some False\<close> for "no" and
  \<open>None\<close> when the dialog is closed without an answer.\<close>

definition show_spike_alert ::
  "config \<Rightarrow> bool option \<Rightarrow> datetime \<Rightarrow> string list \<Rightarrow> monitor \<Rightarrow> monitor" where
  "show_spike_alert cfg answered now recent_paths s =
     (if answered = Some True then confirm_paths cfg now recent_paths s
      else
        let s1 = csv_log \<lparr>timestamp_iso = isoformat now, event_type = ''user_reported_not_me'',
                           event_path = join_with '';'' recent_paths,
                           action_taken = ''alert_shown'',
                           note_field = ''count='' @ str_nat (length recent_paths)\<rparr> s
        in (case first_index (\<lambda>ev. src_path ev \<in> set recent_paths
                                      \<or> dest_path ev \<in> set recent_paths) (events s1) of
              None \<Rightarrow> s1
            | Some idx \<Rightarrow> s1\<lparr>selected_index := Some idx\<rparr>))"

text \<open>\<^verbatim>\<open>on_select\<close> with the list box selection at index \<open>i\<close>.\<close>

definition on_select :: "nat \<Rightarrow> monitor \<Rightarrow> monitor" where
  "on_select i s = (if i < length (events s) then s\<lparr>selected_index := Some i\<rparr> else s)"

text \<open>
  Everything that can happen to a running monitor: watchdog delivers an event, the polling
  timer fires, the user selects a list entry or presses one of the two buttons, a scheduled
  alert dialog is answered, or the disk changes under the monitor (other programs, or
  \<^verbatim>\<open>refresh_snapshot\<close>, which only rewrites the snapshot directory).
\<close>

datatype action =
    RawEvent datetime raw_event
  | PollQueue "nat \<Rightarrow> real"
  | OnSelect nat
  | MarkIgnore datetime
  | RestoreOriginal datetime datetime
  | AlertAnswered "bool option" datetime
  | DiskChanged filesys

fun step :: "config \<Rightarrow> action \<Rightarrow> monitor \<Rightarrow> monitor" where
  "step cfg (RawEvent now ev) s = s\<lparr>queue := dispatch cfg now ev (queue s)\<rparr>"
| "step cfg (PollQueue clk) s = poll_queue cfg clk s"
| "step cfg (OnSelect i) s = on_select i s"
| "step cfg (MarkIgnore now) s = snd (mark_ignore cfg now s)"
| "step cfg (RestoreOriginal now now_row) s = snd (restore_original cfg now now_row s)"
| "step cfg (AlertAnswered answered now) s =
     (case scheduled s of
        [] \<Rightarrow> s
      | p # rest \<Rightarrow> show_spike_alert cfg answered now p (s\<lparr>scheduled := rest\<rparr>))"
| "step cfg (DiskChanged fs) s = s\<lparr>disk := fs\<rparr>"

definition run :: "config \<Rightarrow> action list \<Rightarrow> monitor \<Rightarrow> monitor" where
  "run cfg acts s = foldl (\<lambda>s a. step cfg a s) s acts"

text \<open>What it means for the data the monitor holds to name only paths in scope.  The row
  written for the answer "no" carries the paths of the alert joined with semicolons.\<close>

definition evok :: "(string \<Rightarrow> bool) \<Rightarrow> event \<Rightarrow> bool" where
  "evok ok ev = (track_path ev \<noteq> [] \<and> ok (track_path ev))"

definition row_paths_ok :: "(string \<Rightarrow> bool) \<Rightarrow> audit_row \<Rightarrow> bool" where
  "row_paths_ok ok r =
     (if action_taken r = ''alert_shown''
      then (\<exists>ps. event_path r = join_with '';'' ps \<and> list_all ok ps)
      else event_path r = [] \<or> ok (event_path r))"

definition paths_ok :: "(string \<Rightarrow> bool) \<Rightarrow> monitor \<Rightarrow> bool" where
  "paths_ok ok s =
     (list_all (evok ok) (queue s @ events s)
      \<and> list_all (\<lambda>e. ok (snd e)) (mod_deque (spike s))
      \<and> list_all (list_all ok) (scheduled s)
      \<and> list_all (row_paths_ok ok) (log s))"

text \<open>A short session: an out-of-scope and an in-scope modification arrive, the queue is
  polled, the user selects the event, ignores it, then restores it.\<close>

definition raw_b :: raw_event where
  "raw_b = \<lparr>kind = Modified, is_directory = False, raw_src = ''t/docs/b.txt'', raw_dest = []\<rparr>"

definition raw_a :: raw_event where
  "raw_a = \<lparr>kind = Modified, is_directory = False, raw_src = ''t/docs/a.txt'', raw_dest = []\<rparr>"

definition example_session :: "action list" where
  "example_session =
     [RawEvent example_now raw_b, RawEvent example_now raw_a, PollQueue (\<lambda>n. 1000 + real n),
      OnSelect 0, MarkIgnore example_now, RestoreOriginal example_now example_now]"

section \<open>The initial snapshot\<close>













section \<open>Properties of the spike detector\<close>

lemma filter_popleft_while:
  "(\<And>e. e \<in> set xs \<Longrightarrow> fst e < c \<Longrightarrow> \<not> P e) \<Longrightarrow> filter P (popleft_while c xs) = filter P xs"
  by (induction xs) auto

lemma popleft_while_idem: "popleft_while c (popleft_while c xs) = popleft_while c xs"
  by (induction xs) auto

lemma popleft_while_dropWhile: "popleft_while c xs = dropWhile (\<lambda>e. fst e < c) xs"
  by (induction xs) auto

lemma record_all_snoc:
  "record_all cfg (evs @ [e]) s = record_mod_event cfg (fst e) (snd e) (record_all cfg evs s)"
  by (simp add: record_all_def)

lemma filter_record_all:
  "\<forall>e \<in> set evs. fst e \<le> now \<Longrightarrow>
   filter (\<lambda>e. fst e \<ge> now - SPIKE_WINDOW_SEC cfg) (mod_deque (record_all cfg evs s))
   = filter (\<lambda>e. fst e \<ge> now - SPIKE_WINDOW_SEC cfg) (mod_deque s @ evs)"
proof (induction evs rule: rev_induct)
  case Nil
  then show ?case by (simp add: record_all_def)
next
  case (snoc e evs)
  have le: "fst e \<le> now" using snoc.prems by simp
  have "filter (\<lambda>e. fst e \<ge> now - SPIKE_WINDOW_SEC cfg)
          (popleft_while (fst e - SPIKE_WINDOW_SEC cfg) (mod_deque (record_all cfg evs s) @ [e]))
        = filter (\<lambda>e. fst e \<ge> now - SPIKE_WINDOW_SEC cfg) (mod_deque (record_all cfg evs s) @ [e])"
    by (rule filter_popleft_while) (use le in auto)
  with snoc show ?case
    by (simp add: record_all_snoc record_mod_event_def)
qed

text \<open>
  Claim C5 as it is stated, for every sequence of recorded events and every \<open>now\<close>, does not
  hold of the code.  With the window of 5 seconds, record one event at the clock reading 90
  and one at 100, then count at the reading 92 (\<^verbatim>\<open>time.time()\<close> follows the system clock,
  which can be set back): both recorded timestamps are at least \<open>92 - 5\<close>, but recording the
  second event pruned the first, so \<^verbatim>\<open>_count_mods\<close> returns 1.
\<close>

theorem sliding_window_counterexample:
  "mod_deque (record_all example_spike_config [(90, ''/t/a''), (100, ''/t/b'')] init_spike)
     = [(100, ''/t/b'')]
   \<and> count_mods example_spike_config 92
         (record_all example_spike_config [(90, ''/t/a''), (100, ''/t/b'')] init_spike) = 1
   \<and> (90::real) \<ge> 92 - SPIKE_WINDOW_SEC example_spike_config
   \<and> (100::real) \<ge> 92 - SPIKE_WINDOW_SEC example_spike_config"
  by (simp add: record_all_def record_mod_event_def count_mods_def init_spike_def
      example_spike_config_def)

text \<open>
  Claim C5, amended.  Let \<open>evs\<close> be the modification events recorded so far, each with the
  clock reading taken when it was recorded, and let \<open>now\<close> be a reading that is not earlier
  than any recorded one.  Then \<^verbatim>\<open>_count_mods\<close> returns the number of recorded events whose
  timestamp is at least \<open>now - SPIKE_WINDOW_SEC\<close>.  Pruning is idempotent: running the pruning
  loop a second time with the same cutoff leaves the retained entries, and hence the count,
  as they were after the first run.
\<close>

theorem sliding_window_count:
  assumes "\<forall>e \<in> set evs. fst e \<le> now"
  shows "count_mods cfg now (record_all cfg evs init_spike)
           = int (length (filter (\<lambda>e. fst e \<ge> now - SPIKE_WINDOW_SEC cfg) evs))
         \<and> popleft_while c (popleft_while c (mod_deque s)) = popleft_while c (mod_deque s)
         \<and> count_mods cfg now (s\<lparr>mod_deque := popleft_while c (popleft_while c (mod_deque s))\<rparr>)
             = count_mods cfg now (s\<lparr>mod_deque := popleft_while c (mod_deque s)\<rparr>)"
  using filter_record_all [OF assms, of cfg init_spike]
  by (simp add: count_mods_def init_spike_def popleft_while_idem)

theorem sliding_window_count_witness:
  "list_all (\<lambda>e. fst e \<le> (108::real)) [(100, ''/t/a''), (101, ''/t/b''), (107, ''/t/c'')]
   \<and> count_mods example_spike_config 108
        (record_all example_spike_config [(100, ''/t/a''), (101, ''/t/b''), (107, ''/t/c'')] init_spike) = 1"
  using sliding_window_count [of "[(100, ''/t/a''), (101, ''/t/b''), (107, ''/t/c'')]" 108 example_spike_config]
  by (simp add: example_spike_config_def)

lemmas spike_eval = record_mod_event_def maybe_trigger_spike_def count_mods_def
  collect_recent_paths_def fromkeys_def init_spike_def example_spike_config_def
  example_burst_def example_steps_def long_cooldown_config_def

lemma remdups_drop_seen: "x \<in> set ys \<Longrightarrow> remdups (zs @ x # ys) = remdups (zs @ ys)"
  by (induction zs) auto

lemma fromkeys_foldl:
  "distinct acc \<Longrightarrow>
   foldl (\<lambda>acc x. if x \<in> set acc then acc else acc @ [x]) acc xs
     = rev (remdups (rev (acc @ xs)))"
proof (induction xs arbitrary: acc)
  case Nil
  then show ?case by (simp add: distinct_remdups_id)
next
  case (Cons x xs)
  show ?case
  proof (cases "x \<in> set acc")
    case True
    then have "remdups (rev xs @ x # rev acc) = remdups (rev xs @ rev acc)"
      by (simp add: remdups_drop_seen)
    with Cons True show ?thesis by simp
  next
    case False
    with Cons show ?thesis by simp
  qed
qed

lemma fromkeys_first_seen: "fromkeys xs = rev (remdups (rev xs))"
  using fromkeys_foldl [of "[]" xs] by (simp add: fromkeys_def)

lemma record_keeps_last_alert: "last_alert_ts (record_mod_event cfg t p s) = last_alert_ts s"
  by (simp add: record_mod_event_def)

lemma maybe_trigger_spike_eq:
  "maybe_trigger_spike cfg tc now tcl s =
     (if count_mods cfg tc s \<ge> SPIKE_THRESHOLD cfg \<and> now - last_alert_ts s > ALERT_COOLDOWN_SEC cfg
      then (Some (fromkeys (collect_recent_paths cfg tcl s)), s\<lparr>last_alert_ts := now\<rparr>)
      else (None, s))"
  by (simp add: maybe_trigger_spike_def Let_def collect_recent_paths_def)

lemma spike_run_gaps:
  "spike_run cfg steps s = (alerts, s') \<Longrightarrow>
   successively (\<lambda>a b. b - a > ALERT_COOLDOWN_SEC cfg) (last_alert_ts s # map fst alerts)"
proof (induction cfg steps s arbitrary: alerts s' rule: spike_run.induct)
  case (1 cfg s)
  then show ?case by simp
next
  case (2 cfg t p steps s)
  then show ?case by (simp add: record_keeps_last_alert)
next
  case (3 cfg tc now tcl steps s)
  show ?case
  proof (cases "count_mods cfg tc s \<ge> SPIKE_THRESHOLD cfg
                \<and> now - last_alert_ts s > ALERT_COOLDOWN_SEC cfg")
    case True
    then have mt: "maybe_trigger_spike cfg tc now tcl s
        = (Some (fromkeys (collect_recent_paths cfg tcl s)), s\<lparr>last_alert_ts := now\<rparr>)"
      by (simp add: maybe_trigger_spike_eq)
    obtain al s2 where r: "spike_run cfg steps (s\<lparr>last_alert_ts := now\<rparr>) = (al, s2)"
      by (cases "spike_run cfg steps (s\<lparr>last_alert_ts := now\<rparr>)")
    from "3.IH"(2) [OF mt [symmetric] refl r]
    have "successively (\<lambda>a b. b - a > ALERT_COOLDOWN_SEC cfg) (now # map fst al)" by simp
    moreover have "alerts = (now, fromkeys (collect_recent_paths cfg tcl s)) # al"
      using "3.prems" mt r by simp
    ultimately show ?thesis using True by simp
  next
    case False
    then have mt: "maybe_trigger_spike cfg tc now tcl s = (None, s)"
      by (simp add: maybe_trigger_spike_eq)
    from "3.IH"(1) [OF mt [symmetric] refl] "3.prems" mt show ?thesis by simp
  qed
qed

text \<open>
  Claim C1 at a concrete input.  Cooldown 2000000000 s, threshold 1; one
  modification is recorded at clock reading 1700000000 and the trigger check runs at the
  same reading.  The window holds at least \<open>SPIKE_THRESHOLD\<close> entries and no alert has
  fired in the run so far, yet \<^verbatim>\<open>_maybe_trigger_spike\<close> schedules nothing: "no alert yet" is
  represented by \<^verbatim>\<open>last_alert_ts = 0\<close>, and \<open>1700000000 - 0 > 2000000000\<close> is false.
\<close>

theorem spike_first_alert_counterexample:
  "SPIKE_THRESHOLD long_cooldown_config
     \<le> count_mods long_cooldown_config 1700000000
          (snd (spike_run long_cooldown_config [Record 1700000000 ''/t/a''] init_spike))
   \<and> fst (spike_run long_cooldown_config [Record 1700000000 ''/t/a''] init_spike) = []
   \<and> fst (maybe_trigger_spike long_cooldown_config 1700000000 1700000000 1700000000
            (snd (spike_run long_cooldown_config [Record 1700000000 ''/t/a''] init_spike))) = None"
  by (simp add: spike_eval)

text \<open>
  The alert discipline in general.  \<^verbatim>\<open>_maybe_trigger_spike\<close> schedules an alert, exactly one, and sets
  \<^verbatim>\<open>last_alert_ts\<close> to \<^verbatim>\<open>now_ts\<close> exactly when at least \<open>SPIKE_THRESHOLD\<close> entries are
  counted in the window and \<open>now_ts - last_alert_ts > ALERT_COOLDOWN_SEC\<close>; otherwise it
  schedules nothing and changes nothing.  \<^verbatim>\<open>last_alert_ts\<close> is 0 until the first alert, so
  before any alert the cooldown test reads \<open>now_ts > ALERT_COOLDOWN_SEC\<close>.  The payload is
  the list of paths in the window without repetitions, in order of first occurrence.
  Recording events never moves \<^verbatim>\<open>last_alert_ts\<close>.  Hence a qualifying burst checked no more
  than the cooldown after the last alert schedules nothing, one checked later schedules an
  alert again, and in every run any two consecutive alerts (and the first alert and 0) are
  more than the cooldown apart.
\<close>

theorem spike_alert_discipline:
  "maybe_trigger_spike cfg tc now tcl s =
     (if count_mods cfg tc s \<ge> SPIKE_THRESHOLD cfg \<and> now - last_alert_ts s > ALERT_COOLDOWN_SEC cfg
      then (Some (rev (remdups (rev (collect_recent_paths cfg tcl s)))), s\<lparr>last_alert_ts := now\<rparr>)
      else (None, s))
   \<and> last_alert_ts init_spike = 0
   \<and> last_alert_ts (record_mod_event cfg t p s) = last_alert_ts s
   \<and> (spike_run cfg steps s = (alerts, s') \<longrightarrow>
        successively (\<lambda>a b. b - a > ALERT_COOLDOWN_SEC cfg) (last_alert_ts s # map fst alerts))"
  using spike_run_gaps [of cfg steps s alerts s']
  by (simp add: maybe_trigger_spike_eq record_keeps_last_alert init_spike_def fromkeys_first_seen)

theorem spike_alert_discipline_witness:
  "spike_run example_spike_config example_steps init_spike =
     ([(1004, [''/t/f1'', ''/t/f2'', ''/t/f3'', ''/t/f4'', ''/t/f5'', ''/t/f6'', ''/t/f8'']),
       (1065, [''/t/f1'', ''/t/f2'', ''/t/f3'', ''/t/f4'', ''/t/f5'', ''/t/f6'', ''/t/f8''])],
      snd (spike_run example_spike_config example_steps init_spike))
   \<and> successively (\<lambda>a b. b - a > ALERT_COOLDOWN_SEC example_spike_config) [0, 1004, 1065]"
proof -
  have run: "spike_run example_spike_config example_steps init_spike =
     ([(1004, [''/t/f1'', ''/t/f2'', ''/t/f3'', ''/t/f4'', ''/t/f5'', ''/t/f6'', ''/t/f8'']),
       (1065, [''/t/f1'', ''/t/f2'', ''/t/f3'', ''/t/f4'', ''/t/f5'', ''/t/f6'', ''/t/f8''])],
      snd (spike_run example_spike_config example_steps init_spike))"
    by (simp add: spike_eval)
  from spike_alert_discipline [of example_spike_config _ _ _ init_spike _ _ example_steps, THEN conjunct2,
        THEN conjunct2, THEN conjunct2, rule_format, OF run]
  show ?thesis using run by (simp add: init_spike_def)
qed

section \<open>Properties of decrypt\_file\<close>

lemmas crypto_eval = decrypt_file_def read_file_def write_file_def exists_path_def
  decrypt_out_path_def endswith_def SALT_SIZE_def toy_lib_def toy_salt_def toy_disk_def Let_def

lemma decrypt_file_error_keeps_disk:
  "fst (decrypt_file lib enc_path password fs) = Inl e \<Longrightarrow>
   snd (decrypt_file lib enc_path password fs) = fs"
  by (auto simp: decrypt_file_def Let_def split: sum.splits option.splits if_splits)

text \<open>
  Claim C8.  Let the artifact \<open>enc_path\<close> hold the bytes \<open>content\<close>.  If \<open>content\<close> is no longer
  than the salt, \<^verbatim>\<open>decrypt_file\<close> raises \<^verbatim>\<open>ValueError\<close>; otherwise, if the Fernet check of the
  token under the derived key fails, it raises \<^verbatim>\<open>InvalidToken\<close>; otherwise, if the output
  path exists, it raises \<^verbatim>\<open>FileExistsError\<close>.  The three errors are different exceptions.
  Whenever the output path exists one of the three is raised.  Whatever error is raised,
  the disk is left exactly as it was: no output file is written.
\<close>

theorem decrypt_failure_atomic:
  assumes "files fs enc_path = Some content"
  shows "(length content \<le> SALT_SIZE \<longrightarrow>
            decrypt_file lib enc_path password fs = (Inl ValueError, fs))
       \<and> (SALT_SIZE < length content
            \<and> fernet_decrypt lib (derive_fernet_key lib password (take SALT_SIZE content))
                 (drop SALT_SIZE content) = None \<longrightarrow>
            decrypt_file lib enc_path password fs = (Inl InvalidToken, fs))
       \<and> (SALT_SIZE < length content
            \<and> fernet_decrypt lib (derive_fernet_key lib password (take SALT_SIZE content))
                 (drop SALT_SIZE content) \<noteq> None
            \<and> exists_path fs (decrypt_out_path enc_path) \<longrightarrow>
            decrypt_file lib enc_path password fs = (Inl FileExistsError, fs))
       \<and> (exists_path fs (decrypt_out_path enc_path) \<longrightarrow>
            fst (decrypt_file lib enc_path password fs)
              \<in> {Inl ValueError, Inl InvalidToken, Inl FileExistsError})
       \<and> (\<forall>e. fst (decrypt_file lib enc_path password fs) = Inl e \<longrightarrow>
            snd (decrypt_file lib enc_path password fs) = fs)"
  using assms decrypt_file_error_keeps_disk [of lib enc_path password fs]
  by (auto simp: decrypt_file_def read_file_def Let_def split: option.splits)

theorem decrypt_failure_atomic_witness:
  "decrypt_file toy_lib ''/d/short.enc'' ''pw'' toy_disk = (Inl ValueError, toy_disk)
   \<and> decrypt_file toy_lib ''/d/bad.enc'' ''pw'' toy_disk = (Inl InvalidToken, toy_disk)
   \<and> decrypt_file toy_lib ''/d/good.enc'' ''pw'' toy_disk = (Inl FileExistsError, toy_disk)
   \<and> decrypt_file toy_lib ''/d/new.enc'' ''pw'' toy_disk
       = (Inr ''/d/new'', toy_disk\<lparr>files := (files toy_disk)(''/d/new'' \<mapsto> [104, 105])\<rparr>)"
proof -
  have short: "files toy_disk ''/d/short.enc'' = Some toy_salt"
    and bad: "files toy_disk ''/d/bad.enc'' = Some (toy_salt @ [0, 0, 7])"
    and good: "files toy_disk ''/d/good.enc'' = Some (toy_salt @ toy_salt @ [104, 105])"
    by (simp_all add: toy_disk_def)
  have "decrypt_file toy_lib ''/d/short.enc'' ''pw'' toy_disk = (Inl ValueError, toy_disk)"
    using decrypt_failure_atomic [OF short, of toy_lib "''pw''"]
    by (simp add: toy_salt_def SALT_SIZE_def)
  moreover have "decrypt_file toy_lib ''/d/bad.enc'' ''pw'' toy_disk = (Inl InvalidToken, toy_disk)"
    using decrypt_failure_atomic [OF bad, of toy_lib "''pw''"]
    by (simp add: toy_salt_def SALT_SIZE_def toy_lib_def)
  moreover have "decrypt_file toy_lib ''/d/good.enc'' ''pw'' toy_disk = (Inl FileExistsError, toy_disk)"
    using decrypt_failure_atomic [OF good, of toy_lib "''pw''"]
    by (simp add: toy_salt_def SALT_SIZE_def toy_lib_def exists_path_def decrypt_out_path_def
        endswith_def toy_disk_def)
  moreover have "decrypt_file toy_lib ''/d/new.enc'' ''pw'' toy_disk
       = (Inr ''/d/new'', toy_disk\<lparr>files := (files toy_disk)(''/d/new'' \<mapsto> [104, 105])\<rparr>)"
    by (simp add: crypto_eval)
  ultimately show ?thesis by simp
qed

section \<open>Properties of the scope filter\<close>

lemmas string_eval = lower_def lower_char_def is_space_def strip_def replace_char_def
  startswith_def endswith_def isabs_def basename_def dirname_def join_def norm_step_def
  normpath_def normcase_def abspath_def relpath_def Let_def

lemmas filter_eval = parse_files_def add_token_def truthy_def and_in_def is_monitored_path_def
  members_def example_config_def unrestricted_config_def empty_filter_config_def

lemma is_monitored_path_eq:
  "is_monitored_path cfg p =
     (if BASENAMES cfg = None \<and> RELPATHS cfg = None then True
      else lower (basename p) \<in> members (BASENAMES cfg)
           \<or> normcase (normpath (case relpath (cwd cfg) p (TARGET_DIRECTORY cfg) of
                                    Some r \<Rightarrow> r | None \<Rightarrow> basename p))
               \<in> members (RELPATHS cfg))"
  by (auto simp: is_monitored_path_def and_in_def truthy_def members_def Let_def
      split: option.splits)

lemma parse_files_empty: "parse_files [] = (None, None)"
  by (simp add: parse_files_def)

lemma parse_files_comma: "parse_files '','' = (Some {}, Some {})"
  by (simp add: parse_files_def strip_def is_space_def)

text \<open>
  Claim C7.  With no filter (\<^verbatim>\<open>BASENAMES\<close> and \<^verbatim>\<open>RELPATHS\<close> both \<^verbatim>\<open>None\<close>)
  \<^verbatim>\<open>_is_monitored_path\<close> is true of every path.  Otherwise it is true exactly when the
  lowercased basename is in \<^verbatim>\<open>BASENAMES\<close> or the path, made relative to the monitored root
  and normalised, is in \<^verbatim>\<open>RELPATHS\<close>.  When \<^verbatim>\<open>relpath\<close> raises, the basename stands in for
  the relative path, so the answer depends on the basename alone.  A filter built
  explicitly with both sets empty, as \<^verbatim>\<open>--files ","\<close> builds it, matches no path; an empty
  \<^verbatim>\<open>--files\<close> gives the unrestricted filter.
\<close>

theorem path_filter_semantics:
  "(BASENAMES cfg = None \<and> RELPATHS cfg = None \<longrightarrow> is_monitored_path cfg p)
   \<and> (\<not> (BASENAMES cfg = None \<and> RELPATHS cfg = None) \<longrightarrow>
        (\<forall>r. relpath (cwd cfg) p (TARGET_DIRECTORY cfg) = Some r \<longrightarrow>
           is_monitored_path cfg p =
             (lower (basename p) \<in> members (BASENAMES cfg)
              \<or> normcase (normpath r) \<in> members (RELPATHS cfg)))
        \<and> (relpath (cwd cfg) p (TARGET_DIRECTORY cfg) = None \<longrightarrow>
           is_monitored_path cfg p =
             (lower (basename p) \<in> members (BASENAMES cfg)
              \<or> normcase (normpath (basename p)) \<in> members (RELPATHS cfg))))
   \<and> (BASENAMES cfg = Some {} \<and> RELPATHS cfg = Some {} \<longrightarrow> \<not> is_monitored_path cfg p)
   \<and> parse_files [] = (None, None)
   \<and> parse_files '','' = (Some {}, Some {})"
  by (auto simp: is_monitored_path_eq members_def parse_files_empty parse_files_comma)

theorem path_filter_semantics_witness:
  "is_monitored_path unrestricted_config ''/home/u/t/any/file.bin''
   \<and> is_monitored_path example_config ''/home/u/t/x/Notes.TXT''
   \<and> is_monitored_path example_config ''/home/u/t/docs/a.txt''
   \<and> \<not> is_monitored_path example_config ''/home/u/t/docs/b.txt''
   \<and> \<not> is_monitored_path example_config []
   \<and> \<not> is_monitored_path empty_filter_config ''/home/u/t/x/notes.txt''"
proof -
  have rel: "relpath ''/home/u'' ''/home/u/t/x/Notes.TXT'' ''/home/u/t'' = Some ''x/Notes.TXT''"
    "relpath ''/home/u'' ''/home/u/t/docs/a.txt'' ''/home/u/t'' = Some ''docs/a.txt''"
    "relpath ''/home/u'' ''/home/u/t/docs/b.txt'' ''/home/u/t'' = Some ''docs/b.txt''"
    "relpath ''/home/u'' [] ''/home/u/t'' = None"
    by (simp_all add: string_eval)
  have "is_monitored_path unrestricted_config ''/home/u/t/any/file.bin''"
    using path_filter_semantics [of unrestricted_config "''/home/u/t/any/file.bin''"]
    by (simp add: unrestricted_config_def)
  moreover have "is_monitored_path example_config ''/home/u/t/x/Notes.TXT''"
    using path_filter_semantics [of example_config "''/home/u/t/x/Notes.TXT''"] rel
    by (simp add: example_config_def members_def basename_def lower_def lower_char_def)
  moreover have "is_monitored_path example_config ''/home/u/t/docs/a.txt''"
    using path_filter_semantics [of example_config "''/home/u/t/docs/a.txt''"] rel
    by (simp add: example_config_def members_def string_eval)
  moreover have "\<not> is_monitored_path example_config ''/home/u/t/docs/b.txt''"
    using path_filter_semantics [of example_config "''/home/u/t/docs/b.txt''"] rel
    by (simp add: example_config_def members_def string_eval)
  moreover have "\<not> is_monitored_path example_config []"
    using path_filter_semantics [of example_config "[]"] rel
    by (simp add: example_config_def members_def string_eval)
  moreover have "\<not> is_monitored_path empty_filter_config ''/home/u/t/x/notes.txt''"
    using path_filter_semantics [of empty_filter_config "''/home/u/t/x/notes.txt''"]
    by (simp add: empty_filter_config_def parse_files_comma)
  ultimately show ?thesis by simp
qed

section \<open>Properties of the handler and the polling loop\<close>

lemma normpath_nonempty: "normpath p \<noteq> []"
  by (simp add: normpath_def Let_def)

lemma abspath_nonempty: "abspath c p \<noteq> []"
  by (simp add: abspath_def normpath_nonempty)

lemma enqueue_cases:
  "enqueue cfg now ty src dest q = q \<or>
   (check_path_of src dest \<noteq> []
    \<and> is_monitored_path cfg (abspath (cwd cfg) (check_path_of src dest))
    \<and> enqueue cfg now ty src dest q =
      q @ [\<lparr>ev_time = isoformat now, ev_type = ty,
             src_path = (if src \<noteq> [] then abspath (cwd cfg) src else []),
             dest_path = (if or_empty dest \<noteq> [] then abspath (cwd cfg) (or_empty dest)
                          else [])\<rparr>])"
  by (simp add: enqueue_def Let_def)

lemma enqueued_event:
  assumes "enqueue cfg now ty src dest q = q @ [ev]"
  shows "ev_type ev = ty"
    and "track_path ev = abspath (cwd cfg) (check_path_of src dest)"
    and "is_monitored_path cfg (track_path ev)"
    and "check_path_of src dest \<noteq> []"
    and "src_path ev = (if src \<noteq> [] then abspath (cwd cfg) src else [])"
  using enqueue_cases [of cfg now ty src dest q] assms
  by (auto simp: track_path_def abspath_nonempty check_path_of_def)

lemma record_all_Cons:
  "record_all cfg (e # evs) s = record_all cfg evs (record_mod_event cfg (fst e) (snd e) s)"
  by (simp add: record_all_def)

lemma record_all_Nil: "record_all cfg [] s = s"
  by (simp add: record_all_def)

lemma spike_drain:
  "spike (drain cfg clk n evs s) = record_all (spike_cfg cfg) (recorded_of clk n evs) (spike s)"
proof (induction evs arbitrary: n s)
  case Nil
  then show ?case by (simp add: record_all_Nil)
next
  case (Cons ev evs)
  show ?case
    by (simp add: Cons.IH poll_one_def Let_def record_all_Cons record_all_Nil)
qed

lemmas event_eval = enqueue_def dispatch_def check_path_of_def or_empty_def track_path_def
  is_mod_class_def poll_one_def poll_queue_def csv_log_def init_monitor_def isoformat_def
  strftime_compact_def pad2_def pad4_def pad6_def digit_def

lemma enqueue_event_notes:
  "enqueue example_config example_now ''moved'' [] (Some ''t/x/notes.txt'') [] = [] @ [event_notes]"
  by (simp add: event_eval example_now_def filter_eval string_eval event_notes_def)

lemma enqueue_event_notes_deleted:
  "enqueue example_config example_now ''deleted'' ''t/x/notes.txt'' None []
     = [] @ [event_notes_deleted]"
  by (simp add: event_eval example_now_def filter_eval string_eval event_notes_deleted_def)

text \<open>
  Claim C10.  Let \<open>ev\<close> be an event that \<^verbatim>\<open>_enqueue\<close> put on the queue (so its checked path
  is in scope).  When the polling loop dequeues it, \<^verbatim>\<open>_record_mod_event\<close> is called for it
  exactly when its type is \<open>modified\<close>, \<open>created\<close> or \<open>moved\<close>, with the absolute source path,
  or the absolute destination path when the source path is empty.  A \<open>deleted\<close> event
  leaves the detector as it was, so it never changes what \<^verbatim>\<open>_count_mods\<close> returns.  Over a
  whole drain of the queue the detector ends as if exactly the events of the three types had
  been recorded, in queue order.
\<close>

theorem window_membership_by_kind:
  assumes "enqueue cfg now ty src dest q = q @ [ev]"
  shows "spike (poll_one cfg t ev s) =
           (if ty = ''modified'' \<or> ty = ''created'' \<or> ty = ''moved''
            then record_mod_event (spike_cfg cfg) t
                   (if src \<noteq> [] then abspath (cwd cfg) src else abspath (cwd cfg) (or_empty dest))
                   (spike s)
            else spike s)
         \<and> (ty = ''deleted'' \<longrightarrow>
              count_mods (spike_cfg cfg) t' (spike (poll_one cfg t ev s))
                = count_mods (spike_cfg cfg) t' (spike s))
         \<and> spike (drain cfg clk n evs s)
             = record_all (spike_cfg cfg) (recorded_of clk n evs) (spike s)"
  using enqueued_event [OF assms] spike_drain [of cfg clk n evs s]
  by (auto simp: poll_one_def is_mod_class_def Let_def abspath_nonempty check_path_of_def)

theorem window_membership_by_kind_witness:
  "spike (poll_one example_config 1000 event_notes (init_monitor example_disk))
     = \<lparr>mod_deque = [(1000, ''/home/u/t/x/notes.txt'')], last_alert_ts = 0\<rparr>
   \<and> spike (poll_one example_config 1000 event_notes_deleted (init_monitor example_disk))
     = init_spike"
proof -
  have "spike (poll_one example_config 1000 event_notes (init_monitor example_disk))
     = \<lparr>mod_deque = [(1000, ''/home/u/t/x/notes.txt'')], last_alert_ts = 0\<rparr>"
    using window_membership_by_kind [OF enqueue_event_notes, of 1000 "init_monitor example_disk"]
    by (simp add: or_empty_def example_config_def string_eval init_monitor_def init_spike_def
        record_mod_event_def example_spike_config_def)
  moreover have "spike (poll_one example_config 1000 event_notes_deleted (init_monitor example_disk))
     = init_spike"
    using window_membership_by_kind [OF enqueue_event_notes_deleted, of 1000 "init_monitor example_disk"]
    by (simp add: init_monitor_def)
  ultimately show ?thesis by simp
qed

section \<open>Properties of restore and ignore\<close>








lemmas disk_eval = isfile_def exists_path_def split_head_def split_tail_def rstrip_sep_def mkdir_def
  makedirs.simps copy_target_def copy2_def snapshot_path_for_def update_snapshot_for_def
  str_error_def example_now_def example_disk_def event_a_def event_notes_def
  event_notes_deleted_def monitor_a_def monitor_notes_def


















section \<open>Only paths in scope reach the queue, the window and the audit log\<close>

lemma set_popleft_while: "set (popleft_while c xs) \<subseteq> set xs"
  by (induction xs) auto

lemma set_fromkeys: "set (fromkeys xs) = set xs"
  by (simp add: fromkeys_first_seen)

lemma paths_ok_init: "paths_ok ok (init_monitor fs)"
  by (simp add: paths_ok_def init_monitor_def init_spike_def)

lemma record_mod_event_ok:
  "list_all (\<lambda>e. ok (snd e)) (mod_deque sp) \<Longrightarrow> ok p \<Longrightarrow>
   list_all (\<lambda>e. ok (snd e)) (mod_deque (record_mod_event c t p sp))"
  using set_popleft_while [of "t - SPIKE_WINDOW_SEC c" "mod_deque sp @ [(t, p)]"]
  by (auto simp: record_mod_event_def list_all_iff)

lemma poll_one_ok:
  assumes "evok ok ev" and "list_all (evok ok) (events s)"
    and "list_all (\<lambda>e. ok (snd e)) (mod_deque (spike s))"
  shows "list_all (evok ok) (events (poll_one cfg t ev s))
       \<and> list_all (\<lambda>e. ok (snd e)) (mod_deque (spike (poll_one cfg t ev s)))
       \<and> scheduled (poll_one cfg t ev s) = scheduled s
       \<and> log (poll_one cfg t ev s) = log s
       \<and> queue (poll_one cfg t ev s) = queue s"
  using assms by (auto simp: poll_one_def Let_def evok_def intro: record_mod_event_ok)

lemma drain_ok:
  assumes "list_all (evok ok) evs" and "list_all (evok ok) (events s)"
    and "list_all (\<lambda>e. ok (snd e)) (mod_deque (spike s))"
  shows "list_all (evok ok) (events (drain cfg clk n evs s))
       \<and> list_all (\<lambda>e. ok (snd e)) (mod_deque (spike (drain cfg clk n evs s)))
       \<and> scheduled (drain cfg clk n evs s) = scheduled s
       \<and> log (drain cfg clk n evs s) = log s
       \<and> queue (drain cfg clk n evs s) = queue s"
  using assms
proof (induction evs arbitrary: n s)
  case Nil
  then show ?case by simp
next
  case (Cons ev evs)
  from Cons.prems have ev: "evok ok ev" and evs: "list_all (evok ok) evs" by simp_all
  note p = poll_one_ok [OF ev Cons.prems(2) Cons.prems(3), of cfg "clk n"]
  from Cons.IH [OF evs, of "poll_one cfg (clk n) ev s" "Suc n"] p
  show ?case by simp
qed

lemma maybe_trigger_ok:
  assumes "list_all (\<lambda>e. ok (snd e)) (mod_deque sp)"
  shows "list_all (\<lambda>e. ok (snd e)) (mod_deque (snd (maybe_trigger_spike c t1 t2 t3 sp)))
       \<and> (\<forall>p. fst (maybe_trigger_spike c t1 t2 t3 sp) = Some p \<longrightarrow> list_all ok p)"
  using assms
  by (auto simp: maybe_trigger_spike_eq list_all_iff set_fromkeys collect_recent_paths_def)

lemma poll_queue_ok:
  assumes "paths_ok ok s"
  shows "paths_ok ok (poll_queue cfg clk s)"
proof (cases "queue s = []")
  case True
  then show ?thesis using assms by (simp add: poll_queue_def)
next
  case False
  let ?s0 = "s\<lparr>queue := []\<rparr>"
  let ?s1 = "drain cfg clk 0 (queue s) ?s0"
  from assms have q: "list_all (evok ok) (queue s)" and e: "list_all (evok ok) (events ?s0)"
    and d: "list_all (\<lambda>e. ok (snd e)) (mod_deque (spike ?s0))"
    and sch: "list_all (list_all ok) (scheduled s)" and lg: "list_all (row_paths_ok ok) (log s)"
    by (simp_all add: paths_ok_def)
  note dr = drain_ok [OF q e d, of cfg clk 0]
  from dr have d1: "list_all (\<lambda>e. ok (snd e)) (mod_deque (spike ?s1))" by simp
  note mt = maybe_trigger_ok [OF d1, of "spike_cfg cfg" "clk (length (queue s))"
      "clk (length (queue s) + 1)" "clk (length (queue s) + 2)"]
  show ?thesis
    using False dr mt sch lg
    by (auto simp: poll_queue_def Let_def paths_ok_def split: option.splits)
qed

lemma enqueue_ok:
  assumes "list_all (evok (is_monitored_path cfg)) q"
  shows "list_all (evok (is_monitored_path cfg)) (enqueue cfg now ty src dest q)"
proof -
  from enqueue_cases [of cfg now ty src dest q]
  show ?thesis
  proof
    assume "enqueue cfg now ty src dest q = q"
    with assms show ?thesis by simp
  next
    assume h: "check_path_of src dest \<noteq> []
      \<and> is_monitored_path cfg (abspath (cwd cfg) (check_path_of src dest))
      \<and> enqueue cfg now ty src dest q =
        q @ [\<lparr>ev_time = isoformat now, ev_type = ty,
               src_path = (if src \<noteq> [] then abspath (cwd cfg) src else []),
               dest_path = (if or_empty dest \<noteq> [] then abspath (cwd cfg) (or_empty dest)
                            else [])\<rparr>]"
    then have e: "enqueue cfg now ty src dest q = q @ [last (enqueue cfg now ty src dest q)]"
      by simp
    have "evok (is_monitored_path cfg) (last (enqueue cfg now ty src dest q))"
      using enqueued_event(2,3) [OF e] by (simp add: evok_def abspath_nonempty)
    with assms show ?thesis by (subst e) simp
  qed
qed

lemma dispatch_ok:
  "list_all (evok (is_monitored_path cfg)) q \<Longrightarrow>
   list_all (evok (is_monitored_path cfg)) (dispatch cfg now ev q)"
  by (auto simp: dispatch_def enqueue_ok split: raw_kind.splits)

lemma selected_event_ok:
  "paths_ok ok s \<Longrightarrow> i < length (events s) \<Longrightarrow> evok ok (events s ! i)"
  by (auto simp: paths_ok_def list_all_iff)

lemma src_path_ok:
  "evok ok ev \<Longrightarrow> src_path ev = [] \<or> ok (src_path ev)"
  by (cases "src_path ev = []") (auto simp: evok_def track_path_def)

lemma row_ok_single:
  "a \<noteq> ''alert_shown'' \<Longrightarrow> p = [] \<or> ok p \<Longrightarrow>
   row_paths_ok ok \<lparr>timestamp_iso = t, event_type = ty, event_path = p, action_taken = a, note_field = n\<rparr>"
  by (simp add: row_paths_ok_def)

lemma mark_ignore_ok:
  assumes "paths_ok ok s"
  shows "paths_ok ok (snd (mark_ignore cfg now s))"
proof (cases "selected_index s")
  case None
  then show ?thesis using assms by (simp add: mark_ignore_def)
next
  case (Some i)
  show ?thesis
  proof (cases "i < length (events s)")
    case False
    then show ?thesis using assms Some by (simp add: mark_ignore_def)
  next
    case True
    from src_path_ok [OF selected_event_ok [OF assms True]]
    have "row_paths_ok ok \<lparr>timestamp_iso = isoformat now, event_type = ev_type (events s ! i),
             event_path = src_path (events s ! i), action_taken = ''ignored_by_user'',
             note_field = ''user indicated they performed the action''\<rparr>"
      by (intro row_ok_single) simp_all
    then show ?thesis using assms Some True
      by (auto simp: mark_ignore_def Let_def csv_log_def paths_ok_def)
  qed
qed

lemma restore_original_ok:
  assumes "paths_ok ok s"
  shows "paths_ok ok (snd (restore_original cfg now now_row s))"
proof (cases "selected_index s")
  case None
  then show ?thesis using assms by (simp add: restore_original_def)
next
  case (Some i)
  show ?thesis
  proof (cases "i < length (events s)")
    case False
    then show ?thesis using assms Some by (simp add: restore_original_def)
  next
    case True
    from src_path_ok [OF selected_event_ok [OF assms True]]
    have "\<And>a n. a \<noteq> ''alert_shown'' \<Longrightarrow>
       row_paths_ok ok \<lparr>timestamp_iso = isoformat now_row, event_type = ev_type (events s ! i),
             event_path = src_path (events s ! i), action_taken = a, note_field = n\<rparr>"
      by (intro row_ok_single) simp_all
    then show ?thesis using assms Some True
      by (auto simp: restore_original_def Let_def csv_log_def paths_ok_def
          split: sum.splits option.splits prod.splits)
  qed
qed

lemma confirm_paths_ok:
  "paths_ok ok s \<Longrightarrow> list_all ok ps \<Longrightarrow> paths_ok ok (confirm_paths cfg now ps s)"
proof (induction ps arbitrary: s)
  case Nil
  then show ?case by simp
next
  case (Cons p ps)
  from Cons.prems have p: "ok p" and ps: "list_all ok ps" by simp_all
  let ?r = "update_snapshot_for cfg p (disk s)"
  have s1: "paths_ok ok (s\<lparr>disk := snd ?r\<rparr>)"
    using Cons.prems(1) by (simp add: paths_ok_def)
  have s2: "paths_ok ok (csv_log \<lparr>timestamp_iso = isoformat now,
                                event_type = ''snapshot_updated_by_user'', event_path = p,
                                action_taken = ''snapshot_updated'',
                                note_field = snd (fst ?r)\<rparr> (s\<lparr>disk := snd ?r\<rparr>))"
    using s1 p by (simp add: paths_ok_def csv_log_def row_paths_ok_def)
  show ?case
    using Cons.IH [OF s1 ps] Cons.IH [OF s2 ps] Cons.IH [OF Cons.prems(1) ps]
    by (simp add: Let_def)
qed

lemma show_spike_alert_ok:
  assumes "paths_ok ok s" and "list_all ok ps"
  shows "paths_ok ok (show_spike_alert cfg answered now ps s)"
proof (cases "answered = Some True")
  case True
  then show ?thesis using confirm_paths_ok [OF assms] by (simp add: show_spike_alert_def)
next
  case False
  have "row_paths_ok ok \<lparr>timestamp_iso = isoformat now, event_type = ''user_reported_not_me'',
                           event_path = join_with '';'' ps,
                           action_taken = ''alert_shown'',
                           note_field = ''count='' @ str_nat (length ps)\<rparr>"
    using assms(2) by (auto simp: row_paths_ok_def)
  then show ?thesis using False assms(1)
    by (auto simp: show_spike_alert_def Let_def csv_log_def paths_ok_def split: option.splits)
qed

lemma step_ok:
  assumes "paths_ok (is_monitored_path cfg) s"
  shows "paths_ok (is_monitored_path cfg) (step cfg a s)"
proof (cases a)
  case (RawEvent now ev)
  then show ?thesis using assms dispatch_ok [of cfg "queue s" now ev]
    by (simp add: paths_ok_def)
next
  case (PollQueue clk)
  then show ?thesis using assms by (simp add: poll_queue_ok)
next
  case (OnSelect i)
  then show ?thesis using assms by (simp add: on_select_def paths_ok_def)
next
  case (MarkIgnore now)
  then show ?thesis using assms by (simp add: mark_ignore_ok)
next
  case (RestoreOriginal now now_row)
  then show ?thesis using assms by (simp add: restore_original_ok)
next
  case (AlertAnswered answered now)
  show ?thesis
  proof (cases "scheduled s")
    case Nil
    then show ?thesis using assms AlertAnswered by simp
  next
    case (Cons p rest)
    from assms Cons have "paths_ok (is_monitored_path cfg) (s\<lparr>scheduled := rest\<rparr>)"
      and "list_all (is_monitored_path cfg) p"
      by (simp_all add: paths_ok_def)
    then show ?thesis using AlertAnswered Cons by (simp add: show_spike_alert_ok)
  qed
next
  case (DiskChanged fs)
  then show ?thesis using assms by (simp add: paths_ok_def)
qed

lemma run_ok:
  "paths_ok (is_monitored_path cfg) s \<Longrightarrow> paths_ok (is_monitored_path cfg) (run cfg acts s)"
  unfolding run_def by (induction acts arbitrary: s) (simp_all add: step_ok)

lemma row_paths_ok_mono:
  "row_paths_ok ok r \<Longrightarrow> (\<And>p. ok p \<Longrightarrow> ok' p) \<Longrightarrow> row_paths_ok ok' r"
  by (fastforce simp: row_paths_ok_def list_all_iff split: if_splits)

lemma paths_ok_mono:
  "paths_ok ok s \<Longrightarrow> (\<And>p. ok p \<Longrightarrow> ok' p) \<Longrightarrow> paths_ok ok' s"
  unfolding paths_ok_def list_all_iff evok_def
  by (auto intro: row_paths_ok_mono)

lemma dispatch_out_of_scope:
  "\<not> is_monitored_path cfg (abspath (cwd cfg) (raw_check_path ev)) \<Longrightarrow> dispatch cfg now ev q = q"
  by (cases "kind ev") (auto simp: dispatch_def enqueue_def Let_def raw_check_path_def)

text \<open>
  Claim C6.  Let a watchdog event have the checked path \<open>P\<close> (made absolute) and let \<open>P\<close>
  not match the scope filter.  Then the handler puts nothing on the queue for it.  Moreover,
  whatever happens to the monitor afterwards or before (any sequence of watchdog events,
  polls, selections, ignores, restores, alert answers and changes of the disk, from
  start-up), \<open>P\<close> is never the tracked path of a queued or listed event, never a path in
  the sliding window or in an alert payload, and never the \<^verbatim>\<open>event_path\<close> of an audit row;
  the \<open>alert_shown\<close> row, which joins the paths of an alert with semicolons, joins paths
  other than \<open>P\<close>.
\<close>

theorem out_of_scope_discarded:
  assumes "P = abspath (cwd cfg) (raw_check_path ev)"
    and "\<not> is_monitored_path cfg P"
    and "s' = run cfg acts (init_monitor fs)"
  shows "dispatch cfg now ev q = q
       \<and> (\<forall>e \<in> set (queue s') \<union> set (events s'). track_path e \<noteq> P)
       \<and> (\<forall>e \<in> set (mod_deque (spike s')). snd e \<noteq> P)
       \<and> (\<forall>ps \<in> set (scheduled s'). P \<notin> set ps)
       \<and> (\<forall>r \<in> set (log s').
             if action_taken r = ''alert_shown''
             then \<exists>ps. event_path r = join_with '';'' ps \<and> P \<notin> set ps
             else event_path r \<noteq> P)"
proof -
  have P: "P \<noteq> []" using assms(1) by (simp add: abspath_nonempty)
  have ok: "paths_ok (\<lambda>p. p \<noteq> P) s'"
    unfolding assms(3)
  proof (rule paths_ok_mono [OF run_ok [OF paths_ok_init]])
    fix p assume "is_monitored_path cfg p"
    with assms(2) show "p \<noteq> P" by auto
  qed
  have "dispatch cfg now ev q = q"
    using assms(1,2) by (simp add: dispatch_out_of_scope)
  moreover have "\<forall>e \<in> set (queue s') \<union> set (events s'). track_path e \<noteq> P"
    using ok by (auto simp: paths_ok_def list_all_iff evok_def)
  moreover have "\<forall>e \<in> set (mod_deque (spike s')). snd e \<noteq> P"
    using ok by (auto simp: paths_ok_def list_all_iff)
  moreover have "\<forall>ps \<in> set (scheduled s'). P \<notin> set ps"
    using ok by (auto simp: paths_ok_def list_all_iff)
  moreover have "\<forall>r \<in> set (log s').
             if action_taken r = ''alert_shown''
             then \<exists>ps. event_path r = join_with '';'' ps \<and> P \<notin> set ps
             else event_path r \<noteq> P"
    using ok P by (fastforce simp: paths_ok_def list_all_iff row_paths_ok_def split: if_splits)
  ultimately show ?thesis by blast
qed

lemmas system_eval = run_def on_select_def mark_ignore_def restore_original_def
  show_spike_alert_def raw_a_def raw_b_def example_session_def raw_check_path_def

lemma session_result:
  "queue (run example_config example_session (init_monitor example_disk)) = []
   \<and> events (run example_config example_session (init_monitor example_disk)) = [event_a]
   \<and> mod_deque (spike (run example_config example_session (init_monitor example_disk)))
       = [(1000, ''/home/u/t/docs/a.txt'')]
   \<and> scheduled (run example_config example_session (init_monitor example_disk)) = []
   \<and> map event_path (log (run example_config example_session (init_monitor example_disk)))
       = [''/home/u/t/docs/a.txt'', ''/home/u/t/docs/a.txt'']"
  by (simp add: system_eval event_eval filter_eval string_eval disk_eval spike_eval)

theorem out_of_scope_discarded_witness:
  "dispatch example_config example_now raw_b [] = []
   \<and> events (run example_config example_session (init_monitor example_disk)) = [event_a]
   \<and> mod_deque (spike (run example_config example_session (init_monitor example_disk)))
       = [(1000, ''/home/u/t/docs/a.txt'')]
   \<and> map event_path (log (run example_config example_session (init_monitor example_disk)))
       = [''/home/u/t/docs/a.txt'', ''/home/u/t/docs/a.txt'']"
proof -
  have P: "''/home/u/t/docs/b.txt'' = abspath (cwd example_config) (raw_check_path raw_b)"
    by (simp add: raw_check_path_def raw_b_def check_path_of_def example_config_def string_eval)
  have out: "\<not> is_monitored_path example_config ''/home/u/t/docs/b.txt''"
    by (simp add: filter_eval string_eval)
  from out_of_scope_discarded [OF P out refl, of example_now "[]" example_session example_disk]
  have "dispatch example_config example_now raw_b [] = []" by simp
  with session_result show ?thesis by simp
qed

section \<open>Properties of the initial snapshot\<close>












end
